theory Spec2Isabelle
  imports Complex_Main "HOL-Library.Word" "HOL-Library.AList"
begin

section \<open>The betting ledger of api/router.go\<close>

text \<open>
  The Go package keeps one in-memory \<open>store\<close> (games, bets, wallets, the bet-id counter
  and the admin key) behind a mutex. Every operation locks the store for its whole
  duration, so each call is a function from the store before to the store after,
  together with what the call returns. Go's \<open>int64\<close> is a 64-bit word read as two's
  complement, \<open>float64\<close> is modelled by the rationals that IEEE-754 binary64 can
  represent, a \<open>Selection\<close> is an arbitrary string (it is decoded from the request body),
  and the two constants of \<open>GameStatus\<close> are the only values the code ever stores.
\<close>

subsection \<open>float64 arithmetic\<close>

type_synonym int64 = "64 word"
type_synonym float64 = rat

text \<open>
  \<open>bitlen n\<close> is the number of binary digits of \<open>n\<close>, and \<open>ilog2 x\<close>, for a positive
  rational \<open>x\<close>, the exponent \<open>e\<close> with \<open>2 ^ e \<le> x < 2 ^ (e + 1)\<close>.
\<close>

fun bitlen :: "nat \<Rightarrow> nat" where
  "bitlen n = (if n = 0 then 0 else Suc (bitlen (n div 2)))"

declare bitlen.simps [simp del]

definition ilog2 :: "rat \<Rightarrow> int" where
  "ilog2 x = (if 1 \<le> x then int (bitlen (nat \<lfloor>x\<rfloor>)) - 1
              else - int (bitlen (nat (\<lceil>1 / x\<rceil> - 1))))"

definition pow2 :: "int \<Rightarrow> rat" where
  "pow2 e = (if 0 \<le> e then 2 ^ nat e else 1 / 2 ^ nat (- e))"

text \<open>Rounding to the nearest integer, ties to the even one.\<close>

definition rne :: "rat \<Rightarrow> int" where
  "rne x = (let f = \<lfloor>x\<rfloor>; d = x - of_int f
            in if d < 1 / 2 then f else if 1 / 2 < d then f + 1
               else if even f then f else f + 1)"

text \<open>
  \<open>round64 x\<close> is the binary64 number nearest to \<open>x\<close> (ties to even): the significand
  has 53 bits, and below the exponent \<open>-1022\<close> the spacing stays \<open>2 ^ (-1074)\<close>. The
  operands of the program are conversions of \<open>int64\<close> values, one quotient of two of
  them by a non-zero divisor and one product of such a quotient with a third, so every
  magnitude is zero or lies between \<open>2 ^ (-63)\<close> and \<open>2 ^ 126\<close>: overflow to infinity
  and NaN do not occur and are not modelled.
\<close>

definition round64 :: "rat \<Rightarrow> float64" where
  "round64 x = (if x = 0 then 0
     else let e = max (ilog2 \<bar>x\<bar>) (- 1022) - 52;
              m = rne (\<bar>x\<bar> / pow2 e)
          in sgn x * of_int m * pow2 e)"

text \<open>The conversion \<open>float64(n)\<close> of an \<open>int64\<close>, and the operators \<open>/\<close> and \<open>*\<close>.\<close>

definition i2f :: "int64 \<Rightarrow> float64" where
  "i2f w = round64 (of_int (sint w))"

definition fdiv :: "float64 \<Rightarrow> float64 \<Rightarrow> float64" where
  "fdiv a b = round64 (a / b)"

definition fmul :: "float64 \<Rightarrow> float64 \<Rightarrow> float64" where
  "fmul a b = round64 (a * b)"

text \<open>
  The conversion \<open>int64(x)\<close> discards the fraction. For a value outside the range of
  \<open>int64\<close> Go leaves the result to the implementation; the model takes the amd64
  instruction's answer, the smallest \<open>int64\<close>.
\<close>

definition f2i :: "float64 \<Rightarrow> int64" where
  "f2i x = (let t = (if 0 \<le> x then \<lfloor>x\<rfloor> else \<lceil>x\<rceil>)
            in if - (2 ^ 63) \<le> t \<and> t < 2 ^ 63 then word_of_int t else - (2 ^ 63))"

subsection \<open>Data model\<close>

datatype GameStatus = StatusPre | StatusDone

type_synonym Selection = string

definition SelHome :: Selection where "SelHome = ''home''"
definition SelAway :: Selection where "SelAway = ''away''"
definition SelDraw :: Selection where "SelDraw = ''draw''"

record Game =
  ID :: int64
  Sport :: string
  Home :: string
  Away :: string
  StartTime :: string
  Status :: GameStatus
  Result :: "Selection option"
  HomePool :: int64
  AwayPool :: int64
  DrawPool :: int64
  HomeOdds :: float64
  AwayOdds :: float64
  DrawOdds :: float64

record Bet =
  ID :: int64
  UserID :: int64
  GameID :: int64
  Selection :: Selection
  Stake :: int64
  PlacedAt :: string

record Wallet =
  UserID :: int64
  Balance :: int64

text \<open>
  The three Go maps. \<open>games\<close> and \<open>wallets\<close> are only looked up and updated by key;
  \<open>bets\<close> is also iterated over by \<open>settle\<close>, so it is an association list whose order
  stands for the (unspecified) iteration order of the Go map.
\<close>

record store =
  games :: "int64 \<rightharpoonup> Game"
  bets :: "(int64 \<times> Bet) list"
  wallets :: "int64 \<rightharpoonup> Wallet"
  nextBet :: int64
  adminKey :: string

text \<open>
  The errors the two operations return through \<open>fmt.Errorf\<close>, and the run-time panic of
  a field access through a nil pointer (a map lookup that misses yields nil).
\<close>

datatype error =
    user_not_found | bad_stake | insufficient_balance | game_not_found
  | game_settled | bad_selection | forbidden | already_settled
  | nil_pointer_dereference

text \<open>\<open>newStore\<close>; the three calls of \<open>time.Now\<close> are parameters.\<close>

definition newStore :: "string \<Rightarrow> string \<Rightarrow> string \<Rightarrow> store" where
  "newStore t1 t2 t3 =
     \<lparr>games =
        [101 \<mapsto> \<lparr>Game.ID = 101, Sport = ''Flag Football'', Home = ''Welsh Fam Whirls'',
                  Away = ''Lewis Chicks'', StartTime = t1, Status = StatusPre,
                  Result = None, HomePool = 100, AwayPool = 100, DrawPool = 0,
                  HomeOdds = 0, AwayOdds = 0, DrawOdds = 0\<rparr>,
         102 \<mapsto> \<lparr>Game.ID = 102, Sport = ''Soccer'', Home = ''Alumni'',
                  Away = ''Dillon'', StartTime = t2, Status = StatusPre,
                  Result = None, HomePool = 150, AwayPool = 120, DrawPool = 30,
                  HomeOdds = 0, AwayOdds = 0, DrawOdds = 0\<rparr>,
         103 \<mapsto> \<lparr>Game.ID = 103, Sport = ''Volleyball'', Home = ''Cat Food'',
                  Away = ''Kiss My Ace'', StartTime = t3, Status = StatusPre,
                  Result = None, HomePool = 150, AwayPool = 120, DrawPool = 30,
                  HomeOdds = 0, AwayOdds = 0, DrawOdds = 0\<rparr>],
      bets = [],
      wallets = [1 \<mapsto> \<lparr>Wallet.UserID = 1, Balance = 1000\<rparr>],
      nextBet = 1,
      adminKey = ''letmein''\<rparr>"

subsection \<open>placeBet\<close>

text \<open>
  The \<open>switch\<close> on the selection: the pool it increments, or \<open>None\<close> for the
  \<open>default\<close> branch.
\<close>

definition addStake :: "Selection \<Rightarrow> int64 \<Rightarrow> Game \<Rightarrow> Game option" where
  "addStake sel stake g =
     (if sel = SelHome then Some (g\<lparr>HomePool := HomePool g + stake\<rparr>)
      else if sel = SelAway then Some (g\<lparr>AwayPool := AwayPool g + stake\<rparr>)
      else if sel = SelDraw then Some (g\<lparr>DrawPool := DrawPool g + stake\<rparr>)
      else None)"

text \<open>
  \<open>placeBet\<close> returns the error or the triple of bet, wallet and game, and the store
  as the call leaves it. The wallet is debited before the \<open>switch\<close>, as in the source;
  \<open>now\<close> is the value of \<open>time.Now\<close>.
\<close>

definition placeBet ::
  "string \<Rightarrow> int64 \<Rightarrow> int64 \<Rightarrow> Selection \<Rightarrow> int64 \<Rightarrow> store
     \<Rightarrow> (error + Bet \<times> Wallet \<times> Game) \<times> store" where
  "placeBet now userID gameID sel stake s =
     (case wallets s userID of
        None \<Rightarrow> (Inl user_not_found, s)
      | Some w \<Rightarrow>
          if stake \<le>s 0 then (Inl bad_stake, s)
          else if Balance w <s stake then (Inl insufficient_balance, s)
          else
            (case games s gameID of
               None \<Rightarrow> (Inl game_not_found, s)
             | Some g \<Rightarrow>
                 if Status g = StatusDone then (Inl game_settled, s)
                 else
                   let w' = w\<lparr>Balance := Balance w - stake\<rparr>;
                       s1 = s\<lparr>wallets := (wallets s)(userID \<mapsto> w')\<rparr>
                   in (case addStake sel stake g of
                         None \<Rightarrow> (Inl bad_selection, s1)
                       | Some g' \<Rightarrow>
                           let b = \<lparr>Bet.ID = nextBet s, Bet.UserID = userID,
                                    GameID = gameID, Selection = sel, Stake = stake,
                                    PlacedAt = now\<rparr>
                           in (Inr (b, w', g'),
                               s1\<lparr>games := (games s1)(gameID \<mapsto> g'),
                                  bets := AList.update (Bet.ID b) b (bets s1),
                                  nextBet := nextBet s1 + 1\<rparr>))))"

subsection \<open>settle\<close>

definition payout :: "int64 \<Rightarrow> int64 \<Rightarrow> int64 \<Rightarrow> int64" where
  "payout stake winnerPool tot =
     (let share = fdiv (i2f stake) (i2f winnerPool)
      in f2i (fmul share (i2f tot)))"

text \<open>
  The loop over \<open>s.bets\<close>. The wallet lookup is unguarded: for a missing wallet \<open>w\<close> is
  nil and \<open>w.Balance\<close> panics; the loop stops there with the wallets as they are.
\<close>

fun payLoop ::
  "int64 \<Rightarrow> Selection \<Rightarrow> int64 \<Rightarrow> int64 \<Rightarrow> Bet list \<Rightarrow> (int64 \<rightharpoonup> Wallet)
     \<Rightarrow> error option \<times> (int64 \<rightharpoonup> Wallet)" where
  "payLoop gameID result winnerPool tot [] ws = (None, ws)"
| "payLoop gameID result winnerPool tot (b # bs) ws =
     (if GameID b \<noteq> gameID then payLoop gameID result winnerPool tot bs ws
      else if Selection b = result then
        (case ws (Bet.UserID b) of
           None \<Rightarrow> (Some nil_pointer_dereference, ws)
         | Some w \<Rightarrow>
             payLoop gameID result winnerPool tot bs
               (ws(Bet.UserID b \<mapsto> w\<lparr>Balance := Balance w + payout (Stake b) winnerPool tot\<rparr>)))
      else payLoop gameID result winnerPool tot bs ws)"

definition winnerPoolOf :: "Selection \<Rightarrow> Game \<Rightarrow> int64" where
  "winnerPoolOf result g =
     (if result = SelHome then HomePool g
      else if result = SelAway then AwayPool g
      else if result = SelDraw then DrawPool g
      else 0)"

definition settle ::
  "string \<Rightarrow> int64 \<Rightarrow> Selection \<Rightarrow> store \<Rightarrow> (error + Game) \<times> store" where
  "settle key gameID result s =
     (if key \<noteq> adminKey s then (Inl forbidden, s)
      else
        (case games s gameID of
           None \<Rightarrow> (Inl game_not_found, s)
         | Some g \<Rightarrow>
             if Status g = StatusDone then (Inl already_settled, s)
             else
               let g' = g\<lparr>Status := StatusDone, Result := Some result\<rparr>;
                   s1 = s\<lparr>games := (games s)(gameID \<mapsto> g')\<rparr>;
                   tot = HomePool g' + AwayPool g' + DrawPool g';
                   winnerPool = winnerPoolOf result g'
               in if winnerPool = 0 then (Inr g', s1)
                  else
                    (case payLoop gameID result winnerPool tot (map snd (bets s1)) (wallets s1) of
                       (None, ws) \<Rightarrow> (Inr g', s1\<lparr>wallets := ws\<rparr>)
                     | (Some e, ws) \<Rightarrow> (Inl e, s1\<lparr>wallets := ws\<rparr>))))"

subsection \<open>Odds and the read operation\<close>

definition addOdds :: "Game \<Rightarrow> Game" where
  "addOdds g =
     (let tot = i2f (HomePool g + AwayPool g + DrawPool g)
      in if tot \<le> 0 then g\<lparr>HomeOdds := 0, AwayOdds := 0, DrawOdds := 0\<rparr>
         else g\<lparr>HomeOdds := fdiv (i2f (HomePool g)) tot,
                AwayOdds := fdiv (i2f (AwayPool g)) tot,
                DrawOdds := fdiv (i2f (DrawPool g)) tot\<rparr>)"

definition getGame :: "int64 \<Rightarrow> store \<Rightarrow> Game option" where
  "getGame gid s = (case games s gid of None \<Rightarrow> None | Some g \<Rightarrow> Some (addOdds g))"

subsection \<open>Requests in sequence\<close>

text \<open>
  The handler turns each request into one call of \<open>placeBet\<close> or \<open>settle\<close> on the
  global store. A history of requests is a list of calls, run in order; the stores
  that can arise are those reached from \<open>newStore\<close> by some history.
\<close>

datatype call =
    PlaceBet string int64 int64 Selection int64
  | Settle string int64 Selection

fun exec :: "call \<Rightarrow> store \<Rightarrow> store" where
  "exec (PlaceBet now userID gameID sel stake) s = snd (placeBet now userID gameID sel stake s)"
| "exec (Settle key gameID result) s = snd (settle key gameID result s)"

inductive reachable :: "store \<Rightarrow> bool" where
  init: "reachable (newStore t1 t2 t3)"
| step: "reachable s \<Longrightarrow> reachable (exec c s)"

fun run :: "call list \<Rightarrow> store \<Rightarrow> store" where
  "run [] s = s"
| "run (c # cs) s = run cs (exec c s)"

text \<open>Every recorded bet names a user who has a wallet.\<close>

definition covered :: "store \<Rightarrow> bool" where
  "covered s = (\<forall>b \<in> snd ` set (bets s). wallets s (Bet.UserID b) \<noteq> None)"

text \<open>
  The bet a call creates: \<open>Some\<close> for a \<open>placeBet\<close> that succeeds, \<open>None\<close> for a
  failed one and for \<open>settle\<close>; and the bets created along a history.
\<close>

fun placed :: "call \<Rightarrow> store \<Rightarrow> Bet option" where
  "placed (PlaceBet now userID gameID sel stake) s =
     (case fst (placeBet now userID gameID sel stake s) of
        Inl e \<Rightarrow> None
      | Inr (b, w, g) \<Rightarrow> Some b)"
| "placed (Settle key gameID result) s = None"

fun placedBets :: "call list \<Rightarrow> store \<Rightarrow> Bet list" where
  "placedBets [] s = []"
| "placedBets (c # cs) s =
     (case placed c s of
        None \<Rightarrow> placedBets cs (exec c s)
      | Some b \<Rightarrow> b # placedBets cs (exec c s))"

text \<open>
  A sequence of \<open>placeBet\<close> calls, each given by its arguments (time, user, game,
  selection, stake): the store after the last one if every call succeeded.
\<close>

fun placeBets ::
  "(string \<times> int64 \<times> int64 \<times> Selection \<times> int64) list \<Rightarrow> store \<Rightarrow> store option" where
  "placeBets [] s = Some s"
| "placeBets ((now, userID, gameID, sel, stake) # cs) s =
     (case placeBet now userID gameID sel stake s of
        (Inl e, s') \<Rightarrow> None
      | (Inr r, s') \<Rightarrow> placeBets cs s')"

text \<open>
  The stakes of the calls of such a sequence that one user made, and of those on one
  selection of one game.
\<close>

definition stakesBy ::
  "int64 \<Rightarrow> (string \<times> int64 \<times> int64 \<times> Selection \<times> int64) list \<Rightarrow> int64 list" where
  "stakesBy u cs = [stake. (now, userID, gameID, sel, stake) \<leftarrow> cs, userID = u]"

definition stakesOn ::
  "int64 \<Rightarrow> Selection \<Rightarrow> (string \<times> int64 \<times> int64 \<times> Selection \<times> int64) list
     \<Rightarrow> int64 list" where
  "stakesOn g x cs = [stake. (now, userID, gameID, sel, stake) \<leftarrow> cs, gameID = g, sel = x]"

text \<open>
  What one settlement credits to user \<open>u\<close>: the payouts of the recorded bets of \<open>u\<close> on
  that game whose selection is the result.
\<close>

definition credited ::
  "int64 \<Rightarrow> int64 \<Rightarrow> Selection \<Rightarrow> int64 \<Rightarrow> int64 \<Rightarrow> Bet list \<Rightarrow> int64" where
  "credited u gameID result winnerPool tot bs =
     sum_list [payout (Stake b) winnerPool tot.
               b \<leftarrow> bs, GameID b = gameID, Selection b = result, Bet.UserID b = u]"

text \<open>
  The payout in the words of the specification, read over the rationals: the share
  \<open>stake / winner_pool\<close>, times the total, rounded down.
\<close>

definition exactPayout :: "int64 \<Rightarrow> int64 \<Rightarrow> int64 \<Rightarrow> int" where
  "exactPayout stake winnerPool tot =
     \<lfloor>(rat_of_int (sint stake) / rat_of_int (sint winnerPool)) * rat_of_int (sint tot)\<rfloor>"

subsection \<open>The preconditions of placeBet as the specification lists them\<close>

text \<open>
  The six preconditions in the order of the specification, each as the condition under
  which it is violated, paired with its error. A condition on the wallet or the game is
  only meaningful once the lookup before it has succeeded.
\<close>

definition violations ::
  "int64 \<Rightarrow> int64 \<Rightarrow> Selection \<Rightarrow> int64 \<Rightarrow> store \<Rightarrow> (bool \<times> error) list" where
  "violations userID gameID sel stake s =
     [(wallets s userID = None, user_not_found),
      (\<not> 0 <s stake, bad_stake),
      (case wallets s userID of None \<Rightarrow> False | Some w \<Rightarrow> \<not> stake \<le>s Balance w,
         insufficient_balance),
      (games s gameID = None, game_not_found),
      (case games s gameID of None \<Rightarrow> False | Some g \<Rightarrow> Status g \<noteq> StatusPre,
         game_settled),
      (sel \<noteq> SelHome \<and> sel \<noteq> SelAway \<and> sel \<noteq> SelDraw, bad_selection)]"

definition firstViolated ::
  "int64 \<Rightarrow> int64 \<Rightarrow> Selection \<Rightarrow> int64 \<Rightarrow> store \<Rightarrow> error option" where
  "firstViolated userID gameID sel stake s =
     map_option snd (find fst (violations userID gameID sel stake s))"

section \<open>Properties\<close>

subsection \<open>Shared facts\<close>

lemma sle_iff_not_sless: "(a \<le>s b) = (\<not> b <s a)"
  by (simp add: word_sle_eq word_sless_alt not_less)

lemma GameStatus_not_Done: "(st \<noteq> StatusDone) = (st = StatusPre)"
  by (cases st) simp_all

lemma addStake_None: "(addStake sel stake g = None) = (sel \<noteq> SelHome \<and> sel \<noteq> SelAway \<and> sel \<noteq> SelDraw)"
  by (simp add: addStake_def)

text \<open>
  Every error return of \<open>placeBet\<close> other than \<open>bad_selection\<close> leaves the store as it
  was; \<open>bad_selection\<close> leaves everything but the wallets.
\<close>

lemma placeBet_error_store:
  assumes "placeBet now userID gameID sel stake s = (Inl e, s')"
  shows "(e \<noteq> bad_selection \<longrightarrow> s' = s)
       \<and> games s' = games s \<and> bets s' = bets s \<and> nextBet s' = nextBet s
       \<and> adminKey s' = adminKey s \<and> dom (wallets s') = dom (wallets s)"
  using assms
  by (auto simp: placeBet_def Let_def split: option.splits if_splits)

lemma placeBet_success:
  assumes "placeBet now userID gameID sel stake s = (Inr (b, w', g'), s')"
  shows "\<exists>w g. wallets s userID = Some w \<and> games s gameID = Some g
           \<and> 0 <s stake \<and> stake \<le>s Balance w \<and> Status g = StatusPre
           \<and> addStake sel stake g = Some g'
           \<and> w' = w\<lparr>Balance := Balance w - stake\<rparr>
           \<and> b = \<lparr>Bet.ID = nextBet s, Bet.UserID = userID, GameID = gameID,
                  Selection = sel, Stake = stake, PlacedAt = now\<rparr>
           \<and> s' = s\<lparr>wallets := (wallets s)(userID \<mapsto> w'),
                    games := (games s)(gameID \<mapsto> g'),
                    bets := AList.update (nextBet s) b (bets s),
                    nextBet := nextBet s + 1\<rparr>"
  using assms
  by (auto simp: placeBet_def Let_def sle_iff_not_sless GameStatus_not_Done
           split: option.splits if_splits)

lemma winnerPoolOf_update [simp]:
  "winnerPoolOf result (g\<lparr>Status := st, Result := r\<rparr>) = winnerPoolOf result g"
  by (simp add: winnerPoolOf_def)

lemma settle_no_winner:
  assumes "key = adminKey s" and "games s gameID = Some g" and "Status g = StatusPre"
    and "winnerPoolOf result g = 0"
  shows "settle key gameID result s =
           (Inr (g\<lparr>Status := StatusDone, Result := Some result\<rparr>),
            s\<lparr>games := (games s)(gameID \<mapsto> g\<lparr>Status := StatusDone, Result := Some result\<rparr>)\<rparr>)"
  using assms by (simp add: settle_def Let_def)

lemma newStore_simps:
  "adminKey (newStore t1 t2 t3) = ''letmein''"
  "nextBet (newStore t1 t2 t3) = 1"
  "bets (newStore t1 t2 t3) = []"
  "wallets (newStore t1 t2 t3) 1 = Some \<lparr>Wallet.UserID = 1, Balance = 1000\<rparr>"
  "games (newStore t1 t2 t3) 101 =
     Some \<lparr>Game.ID = 101, Sport = ''Flag Football'', Home = ''Welsh Fam Whirls'',
           Away = ''Lewis Chicks'', StartTime = t1, Status = StatusPre,
           Result = None, HomePool = 100, AwayPool = 100, DrawPool = 0,
           HomeOdds = 0, AwayOdds = 0, DrawOdds = 0\<rparr>"
  by (simp_all add: newStore_def)

text \<open>Signed reading of \<open>int64\<close> sums and differences that stay in range.\<close>

lemma sint64_add:
  "- (2 ^ 63) \<le> sint a + sint b \<Longrightarrow> sint a + sint b < 2 ^ 63
     \<Longrightarrow> sint (a + b :: int64) = sint a + sint b"
  by (simp add: sint_word_add signed_take_bit_int_eq_self)

lemma sint64_diff:
  "- (2 ^ 63) \<le> sint a - sint b \<Longrightarrow> sint a - sint b < 2 ^ 63
     \<Longrightarrow> sint (a - b :: int64) = sint a - sint b"
  by (simp add: sint_word_diff signed_take_bit_int_eq_self)

lemma sint64_range: "- (2 ^ 63) \<le> sint (w :: int64)" "sint (w :: int64) < 2 ^ 63"
  using sint_ge [of w] sint_lt [of w] by simp_all

lemma sint64_add_nat:
  assumes "sint c + int i < 2 ^ 63"
  shows "sint (c + of_nat i :: int64) = sint c + int i"
  using assms
proof (induction i)
  case 0
  then show ?case by simp
next
  case (Suc i)
  then have ih: "sint (c + of_nat i) = sint c + int i" by simp
  have e: "c + of_nat (Suc i) = (c + of_nat i) + 1" by simp
  have "sint ((c + of_nat i) + 1 :: int64) = sint (c + of_nat i) + sint (1 :: int64)"
    using Suc.prems ih sint64_range(1) [of c]
    by (intro sint64_add) simp_all
  then have "sint ((c + of_nat i) + 1 :: int64) = sint c + int i + 1"
    using ih by simp
  then show ?case unfolding e by simp
qed

lemma placeBet_counter:
  "(case placeBet now userID gameID sel stake s of
      (Inl e, s') \<Rightarrow> nextBet s' = nextBet s
    | (Inr (b, w, g), s') \<Rightarrow> Bet.ID b = nextBet s \<and> nextBet s' = nextBet s + 1)"
  by (auto simp: placeBet_def Let_def split: option.splits)

lemma settle_counter: "nextBet (snd (settle key gameID result s)) = nextBet s"
  by (auto simp: settle_def Let_def split: option.splits prod.splits)

lemma exec_counter:
  "(case placed c s of
      None \<Rightarrow> nextBet (exec c s) = nextBet s
    | Some b \<Rightarrow> Bet.ID b = nextBet s \<and> nextBet (exec c s) = nextBet s + 1)"
proof (cases c)
  case (PlaceBet now userID gameID sel stake)
  then show ?thesis
    using placeBet_counter [where now = now and userID = userID and gameID = gameID and sel = sel
        and stake = stake and s = s]
    by (auto split: prod.splits sum.splits option.splits)
next
  case (Settle key gameID result)
  then show ?thesis by (simp add: settle_counter)
qed

lemma placedBets_ids:
  "map Bet.ID (placedBets cs s) = map (\<lambda>i. nextBet s + of_nat i) [0..<length (placedBets cs s)]
   \<and> nextBet (run cs s) = nextBet s + of_nat (length (placedBets cs s))"
proof (induction cs arbitrary: s)
  case Nil
  then show ?case by simp
next
  case (Cons c cs)
  note ih = Cons.IH [of "exec c s"]
  show ?case
  proof (cases "placed c s")
    case None
    then have "nextBet (exec c s) = nextBet s"
      using exec_counter [of c s] by simp
    with None ih show ?thesis by simp
  next
    case (Some b)
    then have b: "Bet.ID b = nextBet s" "nextBet (exec c s) = nextBet s + 1"
      using exec_counter [of c s] by simp_all
    let ?n = "length (placedBets cs (exec c s))"
    have "map (\<lambda>i. nextBet s + of_nat i) [0..<Suc ?n]
          = nextBet s # map (\<lambda>i. nextBet s + 1 + of_nat i) [0..<?n]"
      by (simp add: upt_conv_Cons map_Suc_upt [symmetric] del: upt_Suc)
    with Some b ih show ?thesis by (simp add: add.assoc add.commute)
  qed
qed

lemma ids_increasing:
  assumes "sint c + int n \<le> 2 ^ 63"
  shows "sorted_wrt (<s) (map (\<lambda>i. c + of_nat i :: int64) [0..<n])"
proof -
  have "sint (c + of_nat i) = sint c + int i" if "i < n" for i
    using that assms by (intro sint64_add_nat) simp
  then show ?thesis
    by (auto simp: sorted_wrt_map sorted_wrt_iff_nth_less word_sless_alt)
qed


lemma update_fresh: "k \<notin> fst ` set xs \<Longrightarrow> AList.update k v xs = xs @ [(k, v)]"
  by (induction xs) auto

lemma exec_bets:
  "(case placed c s of
      None \<Rightarrow> bets (exec c s) = bets s
    | Some b \<Rightarrow> bets (exec c s) = AList.update (nextBet s) b (bets s))"
proof (cases c)
  case (PlaceBet now userID gameID sel stake)
  then show ?thesis
    by (auto simp: placeBet_def Let_def split: option.splits)
next
  case (Settle key gameID result)
  then show ?thesis
    by (auto simp: settle_def Let_def split: option.splits prod.splits)
qed

lemma bets_run:
  assumes "\<forall>k \<in> fst ` set (bets s). k <s nextBet s"
    and "sint (nextBet s) + int (length (placedBets cs s)) < 2 ^ 63"
  shows "bets (run cs s) = bets s @ map (\<lambda>b. (Bet.ID b, b)) (placedBets cs s)"
  using assms
proof (induction cs arbitrary: s)
  case Nil
  then show ?case by simp
next
  case (Cons c cs)
  show ?case
  proof (cases "placed c s")
    case None
    then have "nextBet (exec c s) = nextBet s" "bets (exec c s) = bets s"
      using exec_counter [of c s] exec_bets [of c s] by simp_all
    with None Cons.IH [of "exec c s"] Cons.prems show ?thesis by simp
  next
    case (Some b)
    then have b: "Bet.ID b = nextBet s" "nextBet (exec c s) = nextBet s + 1"
      "bets (exec c s) = AList.update (nextBet s) b (bets s)"
      using exec_counter [of c s] exec_bets [of c s] by simp_all
    have fresh: "nextBet s \<notin> fst ` set (bets s)"
      using Cons.prems(1) by (auto simp: word_sless_alt)
    then have bs: "bets (exec c s) = bets s @ [(nextBet s, b)]"
      using b(3) by (simp add: update_fresh)
    have len: "sint (nextBet s) + 1 + int (length (placedBets cs (exec c s))) < 2 ^ 63"
      using Cons.prems(2) Some by simp
    then have s1: "sint (nextBet s + 1) = sint (nextBet s) + 1"
      using sint64_add_nat [of "nextBet s" 1] by simp
    have "\<forall>k \<in> fst ` set (bets (exec c s)). k <s nextBet (exec c s)"
      using Cons.prems(1) s1 by (auto simp: bs b(2) word_sless_alt)
    moreover have "sint (nextBet (exec c s)) + int (length (placedBets cs (exec c s))) < 2 ^ 63"
      using len s1 b(2) by simp
    ultimately have "bets (run cs (exec c s)) =
        bets (exec c s) @ map (\<lambda>b. (Bet.ID b, b)) (placedBets cs (exec c s))"
      by (rule Cons.IH)
    with Some b(1) bs show ?thesis by simp
  qed
qed

text \<open>One successful \<open>placeBet\<close>, and a sequence of them, on a wallet and on a game.\<close>

lemma Sel_distinct [simp]:
  "SelHome \<noteq> SelAway" "SelHome \<noteq> SelDraw" "SelAway \<noteq> SelDraw"
  "SelAway \<noteq> SelHome" "SelDraw \<noteq> SelHome" "SelDraw \<noteq> SelAway"
  by (simp_all add: SelHome_def SelAway_def SelDraw_def)

lemma placeBet_wallet_step:
  assumes "placeBet now userID gameID sel stake s = (Inr r, s')" and "wallets s u = Some w"
  shows "\<exists>w'. wallets s' u = Some w'
           \<and> sint (Balance w) - sint (Balance w') = (if userID = u then sint stake else 0)"
proof -
  obtain b w1 g1 where r: "r = (b, w1, g1)" by (cases r)
  from placeBet_success [OF assms(1) [unfolded r]]
  obtain w0 g where h: "wallets s userID = Some w0" "0 <s stake" "stake \<le>s Balance w0"
    "w1 = w0\<lparr>Balance := Balance w0 - stake\<rparr>"
    "wallets s' = (wallets s)(userID \<mapsto> w1)"
    by auto
  show ?thesis
  proof (cases "userID = u")
    case True
    with h assms(2) have w0: "w0 = w" by simp
    have "0 < sint stake" "sint stake \<le> sint (Balance w)"
      using h(2,3) w0 by (simp_all add: word_sless_alt word_sle_eq)
    then have "sint (Balance w - stake) = sint (Balance w) - sint stake"
      using sint64_range(2) [of "Balance w"] by (intro sint64_diff) simp_all
    with True h w0 show ?thesis by simp
  next
    case False
    with h assms(2) show ?thesis by simp
  qed
qed

lemma placeBet_game_step:
  assumes "placeBet now userID gameID sel stake s = (Inr r, s')" and "games s gid = Some g"
  shows "\<exists>g'. games s' gid = Some g'
           \<and> HomePool g' = HomePool g + (if gameID = gid \<and> sel = SelHome then stake else 0)
           \<and> AwayPool g' = AwayPool g + (if gameID = gid \<and> sel = SelAway then stake else 0)
           \<and> DrawPool g' = DrawPool g + (if gameID = gid \<and> sel = SelDraw then stake else 0)"
proof -
  obtain b w1 g1 where r: "r = (b, w1, g1)" by (cases r)
  from placeBet_success [OF assms(1) [unfolded r]]
  obtain g0 where h: "games s gameID = Some g0" "addStake sel stake g0 = Some g1"
    "games s' = (games s)(gameID \<mapsto> g1)"
    by auto
  show ?thesis
  proof (cases "gameID = gid")
    case True
    with h assms(2) have "g0 = g" by simp
    with True h show ?thesis
      by (auto simp: addStake_def split: if_splits)
  next
    case False
    with h assms(2) show ?thesis by simp
  qed
qed

lemma stakesBy_Cons:
  "stakesBy u ((now, userID, gameID, sel, stake) # cs) =
     (if userID = u then stake # stakesBy u cs else stakesBy u cs)"
  by (simp add: stakesBy_def)

lemma stakesOn_Cons:
  "stakesOn g x ((now, userID, gameID, sel, stake) # cs) =
     (if gameID = g \<and> sel = x then stake # stakesOn g x cs else stakesOn g x cs)"
  by (simp add: stakesOn_def)

lemma placeBets_wallet:
  assumes "placeBets cs s = Some s'" and "wallets s u = Some w"
  shows "\<exists>w'. wallets s' u = Some w'
           \<and> sint (Balance w) - sint (Balance w') = (\<Sum>x\<leftarrow>stakesBy u cs. sint x)"
  using assms
proof (induction cs arbitrary: s w)
  case Nil
  then show ?case by (simp add: stakesBy_def)
next
  case (Cons c cs)
  obtain now userID gameID sel stake where c: "c = (now, userID, gameID, sel, stake)"
    by (cases c)
  from Cons.prems(1) obtain r s1 where
    p: "placeBet now userID gameID sel stake s = (Inr r, s1)" and rest: "placeBets cs s1 = Some s'"
    by (auto simp: c split: prod.splits sum.splits)
  from placeBet_wallet_step [OF p Cons.prems(2)] obtain w1 where
    w1: "wallets s1 u = Some w1"
      "sint (Balance w) - sint (Balance w1) = (if userID = u then sint stake else 0)"
    by auto
  from Cons.IH [OF rest w1(1)] obtain w' where
    "wallets s' u = Some w'" "sint (Balance w1) - sint (Balance w') = (\<Sum>x\<leftarrow>stakesBy u cs. sint x)"
    by auto
  with w1(2) show ?case by (auto simp: c stakesBy_Cons)
qed

lemma placeBets_game:
  assumes "placeBets cs s = Some s'" and "games s gid = Some g"
  shows "\<exists>g'. games s' gid = Some g'
           \<and> HomePool g' = HomePool g + sum_list (stakesOn gid SelHome cs)
           \<and> AwayPool g' = AwayPool g + sum_list (stakesOn gid SelAway cs)
           \<and> DrawPool g' = DrawPool g + sum_list (stakesOn gid SelDraw cs)"
  using assms
proof (induction cs arbitrary: s g)
  case Nil
  then show ?case by (simp add: stakesOn_def)
next
  case (Cons c cs)
  obtain now userID gameID sel stake where c: "c = (now, userID, gameID, sel, stake)"
    by (cases c)
  from Cons.prems(1) obtain r s1 where
    p: "placeBet now userID gameID sel stake s = (Inr r, s1)" and rest: "placeBets cs s1 = Some s'"
    by (auto simp: c split: prod.splits sum.splits)
  from placeBet_game_step [OF p Cons.prems(2)] obtain g1 where
    g1: "games s1 gid = Some g1"
      "HomePool g1 = HomePool g + (if gameID = gid \<and> sel = SelHome then stake else 0)"
      "AwayPool g1 = AwayPool g + (if gameID = gid \<and> sel = SelAway then stake else 0)"
      "DrawPool g1 = DrawPool g + (if gameID = gid \<and> sel = SelDraw then stake else 0)"
    by auto
  from Cons.IH [OF rest g1(1)] obtain g' where
    "games s' gid = Some g'"
    "HomePool g' = HomePool g1 + sum_list (stakesOn gid SelHome cs)"
    "AwayPool g' = AwayPool g1 + sum_list (stakesOn gid SelAway cs)"
    "DrawPool g' = DrawPool g1 + sum_list (stakesOn gid SelDraw cs)"
    by auto
  with g1(2-4) show ?case by (auto simp: c stakesOn_Cons)
qed


lemma winnerPoolOf_cases:
  "winnerPoolOf x g =
     (if x = SelHome then HomePool g else if x = SelAway then AwayPool g
      else if x = SelDraw then DrawPool g else 0)"
  by (simp add: winnerPoolOf_def)

lemma placeBets_valid:
  assumes "placeBets cs s = Some s'"
  shows "\<forall>(now, userID, gameID, sel, stake) \<in> set cs.
           0 < sint stake \<and> (sel = SelHome \<or> sel = SelAway \<or> sel = SelDraw)"
  using assms
proof (induction cs arbitrary: s)
  case Nil
  then show ?case by simp
next
  case (Cons c cs)
  obtain now userID gameID sel stake where c: "c = (now, userID, gameID, sel, stake)"
    by (cases c)
  from Cons.prems(1) obtain r s1 where
    p: "placeBet now userID gameID sel stake s = (Inr r, s1)" and rest: "placeBets cs s1 = Some s'"
    by (auto simp: c split: prod.splits sum.splits)
  obtain b w1 g1 where r: "r = (b, w1, g1)" by (cases r)
  from placeBet_success [OF p [unfolded r]] obtain g where
    "0 <s stake" "addStake sel stake g = Some g1"
    by auto
  then have "0 < sint stake \<and> (sel = SelHome \<or> sel = SelAway \<or> sel = SelDraw)"
    by (auto simp: word_sless_alt addStake_def split: if_splits)
  with Cons.IH [OF rest] show ?case by (simp add: c)
qed

lemma sint64_add_list:
  assumes "\<forall>x \<in> set xs. 0 < sint x" and "sint a + (\<Sum>x\<leftarrow>xs. sint x) < 2 ^ 63"
  shows "sint (a + sum_list xs :: int64) = sint a + (\<Sum>x\<leftarrow>xs. sint x)"
  using assms
proof (induction xs arbitrary: a)
  case Nil
  then show ?case by simp
next
  case (Cons x xs)
  have nonneg: "0 \<le> (\<Sum>y\<leftarrow>xs. sint y)"
    using Cons.prems(1) by (intro sum_list_nonneg) auto
  have x: "0 < sint x" using Cons.prems(1) by simp
  have "sint (a + x) = sint a + sint x"
    using Cons.prems(2) nonneg x sint64_range(1) [of a] by (intro sint64_add) simp_all
  moreover have "sint ((a + x) + sum_list xs) = sint (a + x) + (\<Sum>y\<leftarrow>xs. sint y)"
    using Cons.prems calculation by (intro Cons.IH) simp_all
  ultimately show ?case by (simp add: add.assoc)
qed

text \<open>The payout loop keeps the set of wallets, and panics only on a bet without one.\<close>

lemma payLoop_dom:
  "dom (snd (payLoop gameID result winnerPool tot bs ws)) = dom ws"
proof (induction bs arbitrary: ws)
  case Nil
  then show ?case by simp
next
  case (Cons b bs)
  show ?case
  proof (cases "GameID b = gameID \<and> Selection b = result")
    case True
    show ?thesis
    proof (cases "ws (Bet.UserID b)")
      case None
      with True show ?thesis by simp
    next
      case (Some w)
      let ?ws = "ws(Bet.UserID b \<mapsto> w\<lparr>Balance := Balance w + payout (Stake b) winnerPool tot\<rparr>)"
      have "payLoop gameID result winnerPool tot (b # bs) ws =
              payLoop gameID result winnerPool tot bs ?ws"
        using True Some by simp
      then have "dom (snd (payLoop gameID result winnerPool tot (b # bs) ws)) = dom ?ws"
        using Cons.IH [of ?ws] by (simp only:)
      also have "dom ?ws = dom ws"
        using Some by auto
      finally show ?thesis .
    qed
  next
    case False
    then show ?thesis using Cons.IH by auto
  qed
qed

lemma payLoop_no_panic:
  assumes "\<forall>b \<in> set bs. ws (Bet.UserID b) \<noteq> None"
  shows "fst (payLoop gameID result winnerPool tot bs ws) = None"
  using assms
proof (induction bs arbitrary: ws)
  case Nil
  then show ?case by simp
next
  case (Cons b bs)
  then obtain w where w: "ws (Bet.UserID b) = Some w" by auto
  have "\<forall>b' \<in> set bs. (ws(Bet.UserID b \<mapsto> w')) (Bet.UserID b') \<noteq> None" for w'
    using Cons.prems by auto
  then show ?case
    using Cons.IH Cons.prems w by auto
qed

lemma settle_shape:
  "bets (snd (settle key gameID result s)) = bets s
   \<and> dom (wallets (snd (settle key gameID result s))) = dom (wallets s)"
proof -
  have "dom (ws') = dom (wallets s)"
    if "payLoop gameID result winnerPool tot bs (wallets s) = (e, ws')" for winnerPool tot bs e ws'
    using payLoop_dom [of gameID result winnerPool tot bs "wallets s"] that by simp
  then show ?thesis
    by (auto simp: settle_def Let_def split: option.splits prod.splits)
qed

lemma set_update_subset: "set (AList.update k v xs) \<subseteq> insert (k, v) (set xs)"
  by (induction xs) auto

lemma exec_covered:
  assumes "covered s"
  shows "covered (exec c s)"
proof (cases c)
  case (PlaceBet now userID gameID sel stake)
  obtain r s' where p: "placeBet now userID gameID sel stake s = (r, s')"
    by (cases "placeBet now userID gameID sel stake s")
  show ?thesis
  proof (cases r)
    case (Inl e)
    from placeBet_error_store [OF p [unfolded Inl]]
    have "bets s' = bets s" "dom (wallets s') = dom (wallets s)" by simp_all
    then show ?thesis
      using assms PlaceBet p by (auto simp: covered_def domIff)
  next
    case (Inr t)
    obtain b w' g' where t: "t = (b, w', g')" by (cases t)
    from placeBet_success [OF p [unfolded Inr t]]
    have h: "wallets s' = (wallets s)(userID \<mapsto> w')" "Bet.UserID b = userID"
      "bets s' = AList.update (nextBet s) b (bets s)"
      by auto
    have sub: "snd ` set (bets s') \<subseteq> insert b (snd ` set (bets s))"
      using set_update_subset [of "nextBet s" b "bets s"] h(3) by auto
    have "wallets s' (Bet.UserID x) \<noteq> None" if "x \<in> snd ` set (bets s')" for x
    proof -
      from that sub have "x = b \<or> x \<in> snd ` set (bets s)" by auto
      then show ?thesis
        using assms h(1,2) by (auto simp: covered_def)
    qed
    then have "covered s'" by (simp add: covered_def)
    then show ?thesis
      using PlaceBet p by simp
  qed
next
  case (Settle key gameID result)
  then show ?thesis
    using assms settle_shape [of key gameID result s]
    by (auto simp: covered_def domIff)
qed

lemma reachable_covered: "reachable s \<Longrightarrow> covered s"
proof (induction rule: reachable.induct)
  case (init t1 t2 t3)
  then show ?case by (simp add: covered_def newStore_simps)
next
  case (step s c)
  from step.IH show ?case by (rule exec_covered)
qed

lemma covered_no_panic:
  assumes "covered s"
  shows "fst (settle key gameID result s) \<noteq> Inl nil_pointer_dereference"
proof -
  have "fst (payLoop gameID result winnerPool tot (map snd (bets s)) (wallets s)) = None"
    for winnerPool tot
    using assms by (intro payLoop_no_panic) (auto simp: covered_def)
  then have "payLoop gameID result winnerPool tot (map snd (bets s)) (wallets s) \<noteq> (Some e, ws)"
    for winnerPool tot e ws
    by (metis fst_conv option.distinct(1))
  then show ?thesis
    by (auto simp: settle_def Let_def split: option.splits prod.splits)
qed

text \<open>What the payout loop leaves in each wallet when it runs to its end.\<close>

lemma credited_Nil [simp]: "credited u gameID result winnerPool tot [] = 0"
  by (simp add: credited_def)

lemma credited_Cons:
  "credited u gameID result winnerPool tot (b # bs) =
     (if GameID b = gameID \<and> Selection b = result \<and> Bet.UserID b = u
      then payout (Stake b) winnerPool tot + credited u gameID result winnerPool tot bs
      else credited u gameID result winnerPool tot bs)"
  by (simp add: credited_def)

lemma payLoop_credit:
  assumes "payLoop gameID result winnerPool tot bs ws = (None, ws')"
  shows "ws' u = map_option
           (\<lambda>w. w\<lparr>Balance := Balance w + credited u gameID result winnerPool tot bs\<rparr>) (ws u)"
  using assms
proof (induction bs arbitrary: ws)
  case Nil
  then show ?case by (cases "ws u") simp_all
next
  case (Cons b bs)
  show ?case
  proof (cases "GameID b = gameID \<and> Selection b = result")
    case False
    with Cons.prems have "payLoop gameID result winnerPool tot bs ws = (None, ws')"
      by (auto split: if_splits)
    from Cons.IH [OF this] False show ?thesis
      by (auto simp: credited_Cons)
  next
    case True
    with Cons.prems obtain w where w: "ws (Bet.UserID b) = Some w"
      by (cases "ws (Bet.UserID b)") auto
    let ?ws = "ws(Bet.UserID b \<mapsto> w\<lparr>Balance := Balance w + payout (Stake b) winnerPool tot\<rparr>)"
    from Cons.prems True w have "payLoop gameID result winnerPool tot bs ?ws = (None, ws')"
      by simp
    from Cons.IH [OF this] have ih: "ws' u = map_option
           (\<lambda>w. w\<lparr>Balance := Balance w + credited u gameID result winnerPool tot bs\<rparr>) (?ws u)" .
    show ?thesis
    proof (cases "Bet.UserID b = u")
      case same: True
      with ih w True show ?thesis
        by (simp add: credited_Cons add.assoc)
    next
      case other: False
      with ih True show ?thesis
        by (simp add: credited_Cons)
    qed
  qed
qed

lemma settle_credit:
  assumes "settle key gameID result s = (Inr g', s')" and "games s gameID = Some g"
    and "winnerPoolOf result g \<noteq> 0"
  shows "wallets s' u = map_option
           (\<lambda>w. w\<lparr>Balance := Balance w +
                credited u gameID result (winnerPoolOf result g)
                  (HomePool g + AwayPool g + DrawPool g) (map snd (bets s))\<rparr>)
           (wallets s u)"
proof -
  let ?wp = "winnerPoolOf result g" and ?tot = "HomePool g + AwayPool g + DrawPool g"
  obtain e ws where l: "payLoop gameID result ?wp ?tot (map snd (bets s)) (wallets s) = (e, ws)"
    by (cases "payLoop gameID result ?wp ?tot (map snd (bets s)) (wallets s)")
  from assms l have "e = None \<and> wallets s' = ws"
    by (auto simp: settle_def Let_def split: if_splits option.splits)
  with l payLoop_credit [of gameID result ?wp ?tot "map snd (bets s)" "wallets s" ws u]
  show ?thesis by simp
qed

text \<open>The store after user 1 has staked \<open>stake\<close> on \<open>home\<close> in a game of the initial store.\<close>

lemma first_home_bet:
  assumes "games (newStore [] [] []) gid = Some g" and "Status g = StatusPre"
    and "0 <s stake" and "stake \<le>s 1000"
  shows "wallets (snd (placeBet [] 1 gid ''home'' stake (newStore [] [] []))) 1
           = Some \<lparr>Wallet.UserID = 1, Balance = 1000 - stake\<rparr>"
    and "games (snd (placeBet [] 1 gid ''home'' stake (newStore [] [] []))) gid
           = Some (g\<lparr>HomePool := HomePool g + stake\<rparr>)"
    and "bets (snd (placeBet [] 1 gid ''home'' stake (newStore [] [] [])))
           = [(1, \<lparr>Bet.ID = 1, Bet.UserID = 1, GameID = gid, Selection = ''home'',
                   Stake = stake, PlacedAt = []\<rparr>)]"
    and "adminKey (snd (placeBet [] 1 gid ''home'' stake (newStore [] [] []))) = ''letmein''"
  using assms
  by (simp_all add: placeBet_def newStore_simps addStake_def SelHome_def Let_def
        sle_iff_not_sless GameStatus_not_Done split: option.splits)


lemma newStore_102:
  "games (newStore t1 t2 t3) 102 =
     Some \<lparr>Game.ID = 102, Sport = ''Soccer'', Home = ''Alumni'',
           Away = ''Dillon'', StartTime = t2, Status = StatusPre,
           Result = None, HomePool = 150, AwayPool = 120, DrawPool = 30,
           HomeOdds = 0, AwayOdds = 0, DrawOdds = 0\<rparr>"
  by (simp add: newStore_def)

lemma settle_succeeds:
  assumes "key = adminKey s" and "games s gameID = Some g" and "Status g = StatusPre"
    and "\<forall>b \<in> set (map snd (bets s)). wallets s (Bet.UserID b) \<noteq> None"
  shows "\<exists>g' s'. settle key gameID result s = (Inr g', s')"
proof -
  have "fst (payLoop gameID result winnerPool tot (map snd (bets s)) (wallets s)) = None"
    for winnerPool tot
    using assms(4) by (rule payLoop_no_panic)
  then obtain ws where
    "payLoop gameID result (winnerPoolOf result g) (HomePool g + AwayPool g + DrawPool g)
       (map snd (bets s)) (wallets s) = (None, ws)"
    by (metis prod.collapse)
  then show ?thesis
    using assms(1-3) by (simp add: settle_def Let_def)
qed

text \<open>A settled game stays settled, and the admin key never changes.\<close>

lemma settle_done:
  assumes "fst (settle key gameID result s) = Inr g"
  shows "\<exists>g'. games (snd (settle key gameID result s)) gameID = Some g' \<and> Status g' = StatusDone"
  using assms
  by (auto simp: settle_def Let_def split: option.splits if_splits prod.splits)

lemma settle_adminKey: "adminKey (snd (settle key gameID result s)) = adminKey s"
  by (auto simp: settle_def Let_def split: option.splits prod.splits)

lemma settle_keeps_done:
  assumes "games s gid = Some g" and "Status g = StatusDone"
  shows "\<exists>g'. games (snd (settle key gameID result s)) gid = Some g' \<and> Status g' = StatusDone"
  using assms
  by (auto simp: settle_def Let_def split: option.splits prod.splits)

lemma placeBet_keeps_done:
  assumes "games s gid = Some g" and "Status g = StatusDone"
  shows "games (snd (placeBet now userID gameID sel stake s)) gid = Some g
       \<and> adminKey (snd (placeBet now userID gameID sel stake s)) = adminKey s"
  using assms
  by (auto simp: placeBet_def Let_def split: option.splits)

lemma exec_keeps_done:
  assumes "games s gid = Some g" and "Status g = StatusDone"
  shows "(\<exists>g'. games (exec c s) gid = Some g' \<and> Status g' = StatusDone)
       \<and> adminKey (exec c s) = adminKey s"
proof (cases c)
  case (PlaceBet now userID gameID sel stake)
  then show ?thesis
    using placeBet_keeps_done [OF assms, of now userID gameID sel stake] assms(2) by simp
next
  case (Settle key gameID result)
  then show ?thesis
    using settle_keeps_done [OF assms, of key gameID result] by (simp add: settle_adminKey)
qed

lemma run_keeps_done:
  assumes "games s gid = Some g" and "Status g = StatusDone"
  shows "(\<exists>g'. games (run cs s) gid = Some g' \<and> Status g' = StatusDone)
       \<and> adminKey (run cs s) = adminKey s"
  using assms
proof (induction cs arbitrary: s g)
  case Nil
  then show ?case by simp
next
  case (Cons c cs)
  from exec_keeps_done [OF Cons.prems, of c] obtain g1 where
    "games (exec c s) gid = Some g1" "Status g1 = StatusDone" "adminKey (exec c s) = adminKey s"
    by auto
  with Cons.IH [of "exec c s" g1] show ?case by simp
qed

lemma done_refuses:
  assumes "games s gid = Some g" and "Status g = StatusDone"
  shows "settle (adminKey s) gid result s = (Inl already_settled, s)"
  using assms by (simp add: settle_def)



lemma pow2_powi: "pow2 e = 2 powi e"
  by (simp add: pow2_def power_int_def field_simps)


lemma pow2_nonzero [simp]: "pow2 e \<noteq> 0"
  by (simp add: pow2_powi)

lemma pow2_abs [simp]: "\<bar>pow2 e\<bar> = pow2 e"
  by (simp add: pow2_powi)










lemma round64_zero [simp]: "round64 0 = 0"
  by (simp add: round64_def)











subsection \<open>C1: an error return of placeBet and the store\<close>

text \<open>
  C1 says that every call of \<open>placeBet\<close> that returns an error, the invalid selection
  included, leaves the ledger as it was. The source debits the wallet before the
  \<open>switch\<close> on the selection, and the \<open>default\<close> branch returns without undoing it: on
  the initial store, user 1 staking 100 on game 101 with the selection \<open>banana\<close> gets
  the error \<open>bad_selection\<close>, and the balance has gone from 1000 to 900.
\<close>

theorem placeBet_bad_selection_debits_wallet:
  "fst (placeBet now 1 101 ''banana'' 100 (newStore t1 t2 t3)) = Inl bad_selection
   \<and> map_option Balance (wallets (newStore t1 t2 t3) 1) = Some 1000
   \<and> map_option Balance (wallets (snd (placeBet now 1 101 ''banana'' 100 (newStore t1 t2 t3))) 1)
       = Some 900"
  by (simp add: placeBet_def newStore_def addStake_def SelHome_def SelAway_def SelDraw_def
        word_sle_eq word_sless_alt)

subsection \<open>C5: the order of the checks of placeBet\<close>

text \<open>
  C5: \<open>placeBet\<close> checks its six preconditions in the order user, stake, balance, game,
  status, selection, and returns the error of the first one violated; when none is
  violated it returns a bet. \<open>firstViolated\<close> is the first violated entry of the
  specification's list.
\<close>

theorem placeBet_first_violated:
  "(case firstViolated userID gameID sel stake s of
      Some e \<Rightarrow> fst (placeBet now userID gameID sel stake s) = Inl e
    | None \<Rightarrow> \<exists>r. fst (placeBet now userID gameID sel stake s) = Inr r)"
  by (auto simp: placeBet_def firstViolated_def violations_def Let_def sle_iff_not_sless
        GameStatus_not_Done addStake_def split: option.splits)

subsection \<open>C3: a second settlement and a wrong credential\<close>

text \<open>
  C3: once \<open>settle\<close> has succeeded on a game, a second call on that game with the admin
  key, at once or after any further calls \<open>cs\<close>, returns \<open>already_settled\<close> and leaves
  the whole store, so every wallet and pool, as it found it; and a call whose
  credential is not the admin key
  returns \<open>forbidden\<close> and leaves the whole store unchanged, so a game that was
  \<open>PreGame\<close> still is.
\<close>

theorem settle_refused:
  "(fst (settle key gameID result s) = Inr g \<longrightarrow>
      settle (adminKey s) gameID result' (run cs (snd (settle key gameID result s)))
        = (Inl already_settled, run cs (snd (settle key gameID result s))))
   \<and> (key' \<noteq> adminKey s \<longrightarrow> settle key' gameID' result'' s = (Inl forbidden, s))"
proof (intro conjI impI)
  assume ok: "fst (settle key gameID result s) = Inr g"
  let ?s1 = "snd (settle key gameID result s)"
  from settle_done [OF ok] obtain g1 where "games ?s1 gameID = Some g1" "Status g1 = StatusDone"
    by auto
  from run_keeps_done [OF this, of cs] obtain g2 where
    g2: "games (run cs ?s1) gameID = Some g2" "Status g2 = StatusDone"
    and k: "adminKey (run cs ?s1) = adminKey ?s1"
    by auto
  from done_refuses [OF g2, of result'] k
  show "settle (adminKey s) gameID result' (run cs ?s1) = (Inl already_settled, run cs ?s1)"
    by (simp add: settle_adminKey)
next
  assume "key' \<noteq> adminKey s"
  then show "settle key' gameID' result'' s = (Inl forbidden, s)"
    by (simp add: settle_def)
qed

theorem settle_refused_witness:
  "fst (settle ''letmein'' 101 ''home'' (newStore [] [] [])) =
       Inr \<lparr>Game.ID = 101, Sport = ''Flag Football'', Home = ''Welsh Fam Whirls'',
            Away = ''Lewis Chicks'', StartTime = [], Status = StatusDone,
            Result = Some ''home'', HomePool = 100, AwayPool = 100, DrawPool = 0,
            HomeOdds = 0, AwayOdds = 0, DrawOdds = 0\<rparr>
   \<and> settle ''letmein'' 101 ''away''
         (run [PlaceBet [] 1 102 ''home'' 10] (snd (settle ''letmein'' 101 ''home'' (newStore [] [] []))))
       = (Inl already_settled,
          run [PlaceBet [] 1 102 ''home'' 10] (snd (settle ''letmein'' 101 ''home'' (newStore [] [] []))))
   \<and> ''guess'' \<noteq> adminKey (newStore [] [] [])
   \<and> settle ''guess'' 101 ''home'' (newStore [] [] []) = (Inl forbidden, newStore [] [] [])"
proof -
  have a: "adminKey (newStore [] [] []) = ''letmein''"
    by (simp add: newStore_def)
  have b: "fst (settle ''letmein'' 101 ''home'' (newStore [] [] [])) =
       Inr \<lparr>Game.ID = 101, Sport = ''Flag Football'', Home = ''Welsh Fam Whirls'',
            Away = ''Lewis Chicks'', StartTime = [], Status = StatusDone,
            Result = Some ''home'', HomePool = 100, AwayPool = 100, DrawPool = 0,
            HomeOdds = 0, AwayOdds = 0, DrawOdds = 0\<rparr>"
    by (simp add: settle_def newStore_def winnerPoolOf_def SelHome_def Let_def)
  show ?thesis
    using settle_refused [where key = "''letmein''" and gameID = 101 and result = "''home''"
        and s = "newStore [] [] []" and result' = "''away''" and key' = "''guess''"
        and gameID' = 101 and result'' = "''home''" and cs = "[PlaceBet [] 1 102 ''home'' 10]"] a b
    by simp
qed

subsection \<open>C6: settlement when nobody backed the winner\<close>

text \<open>
  C6: when the pool of the result is 0, a \<open>settle\<close> call that passes its three checks
  (the admin key, an existing game, status \<open>PreGame\<close>) returns the game with status
  \<open>Settled\<close> and the result recorded; the store differs from the one before in that
  game only, so no wallet is credited.
\<close>

theorem settle_zero_winner_pool:
  assumes "key = adminKey s" and "games s gameID = Some g" and "Status g = StatusPre"
    and "winnerPoolOf result g = 0"
  shows "fst (settle key gameID result s) = Inr (g\<lparr>Status := StatusDone, Result := Some result\<rparr>)
       \<and> snd (settle key gameID result s) =
           s\<lparr>games := (games s)(gameID \<mapsto> g\<lparr>Status := StatusDone, Result := Some result\<rparr>)\<rparr>
       \<and> wallets (snd (settle key gameID result s)) = wallets s"
  using settle_no_winner [OF assms] by simp

theorem settle_zero_winner_pool_witness:
  "fst (settle ''letmein'' 101 ''draw'' (newStore [] [] [])) =
       Inr \<lparr>Game.ID = 101, Sport = ''Flag Football'', Home = ''Welsh Fam Whirls'',
            Away = ''Lewis Chicks'', StartTime = [], Status = StatusDone,
            Result = Some ''draw'', HomePool = 100, AwayPool = 100, DrawPool = 0,
            HomeOdds = 0, AwayOdds = 0, DrawOdds = 0\<rparr>
   \<and> wallets (snd (settle ''letmein'' 101 ''draw'' (newStore [] [] []))) = wallets (newStore [] [] [])"
proof -
  have "winnerPoolOf ''draw''
          \<lparr>Game.ID = 101, Sport = ''Flag Football'', Home = ''Welsh Fam Whirls'',
            Away = ''Lewis Chicks'', StartTime = [], Status = StatusPre,
            Result = None, HomePool = 100, AwayPool = 100, DrawPool = 0,
            HomeOdds = 0, AwayOdds = 0, DrawOdds = 0\<rparr> = 0"
    by (simp add: winnerPoolOf_def SelHome_def SelAway_def SelDraw_def)
  from settle_zero_winner_pool [OF newStore_simps(1) [symmetric] newStore_simps(5) _ this]
  show ?thesis by simp
qed

subsection \<open>C9: settlement with a result that is no selection\<close>

text \<open>
  C9: for a result that is none of \<open>home\<close>, \<open>away\<close>, \<open>draw\<close>, a \<open>settle\<close> call with the
  admin key on an existing \<open>PreGame\<close> game returns no error: the winner pool is 0, the
  game becomes \<open>Settled\<close> with that value recorded as its result, and the store differs
  in that game only, so no wallet is credited.
\<close>

theorem settle_unknown_result:
  assumes "key = adminKey s" and "games s gameID = Some g" and "Status g = StatusPre"
    and "result \<noteq> SelHome" and "result \<noteq> SelAway" and "result \<noteq> SelDraw"
  shows "winnerPoolOf result g = 0
       \<and> fst (settle key gameID result s) = Inr (g\<lparr>Status := StatusDone, Result := Some result\<rparr>)
       \<and> snd (settle key gameID result s) =
           s\<lparr>games := (games s)(gameID \<mapsto> g\<lparr>Status := StatusDone, Result := Some result\<rparr>)\<rparr>
       \<and> wallets (snd (settle key gameID result s)) = wallets s"
proof -
  have z: "winnerPoolOf result g = 0"
    using assms(4-6) by (simp add: winnerPoolOf_def)
  from settle_no_winner [OF assms(1-3) z] z show ?thesis by simp
qed

theorem settle_unknown_result_witness:
  "''banana'' \<noteq> SelHome \<and> ''banana'' \<noteq> SelAway \<and> ''banana'' \<noteq> SelDraw
   \<and> fst (settle ''letmein'' 101 ''banana'' (newStore [] [] [])) =
       Inr \<lparr>Game.ID = 101, Sport = ''Flag Football'', Home = ''Welsh Fam Whirls'',
            Away = ''Lewis Chicks'', StartTime = [], Status = StatusDone,
            Result = Some ''banana'', HomePool = 100, AwayPool = 100, DrawPool = 0,
            HomeOdds = 0, AwayOdds = 0, DrawOdds = 0\<rparr>
   \<and> wallets (snd (settle ''letmein'' 101 ''banana'' (newStore [] [] []))) = wallets (newStore [] [] [])"
proof -
  have n: "''banana'' \<noteq> SelHome" "''banana'' \<noteq> SelAway" "''banana'' \<noteq> SelDraw"
    by (simp_all add: SelHome_def SelAway_def SelDraw_def)
  from settle_unknown_result [OF newStore_simps(1) [symmetric] newStore_simps(5) _ n] n
  show ?thesis by simp
qed

subsection \<open>C8: bet ids\<close>

text \<open>
  C8: a successful \<open>placeBet\<close> gives the bet the current value of the counter as its id
  and advances the counter by one; every error return leaves the counter as it was.
  Hence along any history of calls, from any store, the bets placed carry the ids
  \<open>nextBet\<close>, \<open>nextBet + 1\<close>, ... in the order of placement, whatever failed calls and
  settlements lie between. From the initial store, where the counter is 1, these ids
  are strictly increasing (in particular never reused) and the bet map holds exactly
  the placed bets, each under its own id, as long as the number of placements stays
  below the largest \<open>int64\<close>.
\<close>

theorem bet_ids_fresh_increasing:
  "(case placeBet now userID gameID sel stake s of
      (Inl e, s') \<Rightarrow> nextBet s' = nextBet s
    | (Inr (b, w, g), s') \<Rightarrow> Bet.ID b = nextBet s \<and> nextBet s' = nextBet s + 1)
   \<and> map Bet.ID (placedBets cs s) =
       map (\<lambda>i. nextBet s + of_nat i) [0..<length (placedBets cs s)]
   \<and> nextBet (run cs s) = nextBet s + of_nat (length (placedBets cs s))
   \<and> (int (length (placedBets cs (newStore t1 t2 t3))) < 2 ^ 63 - 1 \<longrightarrow>
        sorted_wrt (<s) (map Bet.ID (placedBets cs (newStore t1 t2 t3)))
        \<and> bets (run cs (newStore t1 t2 t3)) =
            map (\<lambda>b. (Bet.ID b, b)) (placedBets cs (newStore t1 t2 t3)))"
proof -
  let ?s0 = "newStore t1 t2 t3"
  have "sorted_wrt (<s) (map Bet.ID (placedBets cs ?s0))
        \<and> bets (run cs ?s0) = map (\<lambda>b. (Bet.ID b, b)) (placedBets cs ?s0)"
    if n: "int (length (placedBets cs ?s0)) < 2 ^ 63 - 1"
  proof -
    have le: "sint (nextBet ?s0) + int (length (placedBets cs ?s0)) < 2 ^ 63"
      using n by (simp add: newStore_simps)
    have "sorted_wrt (<s) (map (\<lambda>i. nextBet ?s0 + of_nat i) [0..<length (placedBets cs ?s0)])"
      using le by (intro ids_increasing) simp
    moreover have "bets (run cs ?s0) = bets ?s0 @ map (\<lambda>b. (Bet.ID b, b)) (placedBets cs ?s0)"
      using le by (intro bets_run) (simp_all add: newStore_simps)
    ultimately show ?thesis
      using placedBets_ids [of cs ?s0] by (simp add: newStore_simps)
  qed
  then show ?thesis
    using placeBet_counter [where now = now and userID = userID and gameID = gameID
        and sel = sel and stake = stake and s = s] placedBets_ids [of cs s]
    by blast
qed

theorem bet_ids_fresh_increasing_witness:
  "int (length (placedBets
          [PlaceBet [] 1 101 ''home'' 100, PlaceBet [] 1 101 ''banana'' 5,
           Settle ''guess'' 101 ''home'', PlaceBet [] 1 102 ''draw'' 7]
          (newStore [] [] []))) < 2 ^ 63 - 1
   \<and> map Bet.ID (placedBets
          [PlaceBet [] 1 101 ''home'' 100, PlaceBet [] 1 101 ''banana'' 5,
           Settle ''guess'' 101 ''home'', PlaceBet [] 1 102 ''draw'' 7]
          (newStore [] [] [])) = [1, 2]
   \<and> map fst (bets (run
          [PlaceBet [] 1 101 ''home'' 100, PlaceBet [] 1 101 ''banana'' 5,
           Settle ''guess'' 101 ''home'', PlaceBet [] 1 102 ''draw'' 7]
          (newStore [] [] []))) = [1, 2]"
proof -
  let ?cs = "[PlaceBet [] 1 101 ''home'' 100, PlaceBet [] 1 101 ''banana'' 5,
              Settle ''guess'' 101 ''home'', PlaceBet [] 1 102 ''draw'' 7]"
  have ids: "map Bet.ID (placedBets ?cs (newStore [] [] [])) = [1, 2]"
    by code_simp
  have "length (map Bet.ID (placedBets ?cs (newStore [] [] []))) = 2"
    unfolding ids by simp
  then have len: "length (placedBets ?cs (newStore [] [] [])) = 2"
    by simp
  have "bets (run ?cs (newStore [] [] [])) =
          map (\<lambda>b. (Bet.ID b, b)) (placedBets ?cs (newStore [] [] []))"
    using bet_ids_fresh_increasing [where cs = ?cs and ?t1.0 = "[]" and ?t2.0 = "[]"
        and ?t3.0 = "[]"] len
    by simp
  then have "map fst (bets (run ?cs (newStore [] [] []))) =
          map Bet.ID (placedBets ?cs (newStore [] [] []))"
    by (simp add: comp_def)
  with ids len show ?thesis by simp
qed

subsection \<open>C7: conservation over a sequence of successful bets\<close>

text \<open>
  C7: after a sequence of \<open>placeBet\<close> calls that all succeed, the balance of every
  wallet has gone down by exactly the sum of the stakes of that user's calls (as
  integers: a successful call never wraps the balance), and every pool of every game
  has grown by the sum of the stakes placed on it; the sum is the \<open>int64\<close> sum of the
  source's \<open>+=\<close>, and it is the integer sum whenever that fits \<open>int64\<close>.
  \<open>winnerPoolOf x g\<close> is the pool of \<open>g\<close> that matches the selection \<open>x\<close>.
\<close>

theorem placeBets_conservation:
  assumes "placeBets cs s = Some s'"
  shows "(\<forall>u w. wallets s u = Some w \<longrightarrow>
            (\<exists>w'. wallets s' u = Some w'
               \<and> sint (Balance w) - sint (Balance w') = (\<Sum>x\<leftarrow>stakesBy u cs. sint x)))
       \<and> (\<forall>gid g. games s gid = Some g \<longrightarrow>
            (\<exists>g'. games s' gid = Some g'
               \<and> (\<forall>x. winnerPoolOf x g' = winnerPoolOf x g + sum_list (stakesOn gid x cs)
                     \<and> (sint (winnerPoolOf x g) + (\<Sum>y\<leftarrow>stakesOn gid x cs. sint y) < 2 ^ 63 \<longrightarrow>
                          sint (winnerPoolOf x g') =
                            sint (winnerPoolOf x g) + (\<Sum>y\<leftarrow>stakesOn gid x cs. sint y)))))"
proof (intro conjI allI impI)
  fix u w assume "wallets s u = Some w"
  then show "\<exists>w'. wallets s' u = Some w'
               \<and> sint (Balance w) - sint (Balance w') = (\<Sum>x\<leftarrow>stakesBy u cs. sint x)"
    by (rule placeBets_wallet [OF assms])
next
  fix gid g assume "games s gid = Some g"
  from placeBets_game [OF assms this] obtain g' where g':
    "games s' gid = Some g'"
    "HomePool g' = HomePool g + sum_list (stakesOn gid SelHome cs)"
    "AwayPool g' = AwayPool g + sum_list (stakesOn gid SelAway cs)"
    "DrawPool g' = DrawPool g + sum_list (stakesOn gid SelDraw cs)"
    by auto
  have pos: "\<forall>y \<in> set (stakesOn gid x cs). 0 < sint y" for x
    using placeBets_valid [OF assms] by (auto simp: stakesOn_def)
  have none: "stakesOn gid x cs = []" if "x \<noteq> SelHome" "x \<noteq> SelAway" "x \<noteq> SelDraw" for x
    using placeBets_valid [OF assms] that by (auto simp: stakesOn_def filter_empty_conv)
  have w: "winnerPoolOf x g' = winnerPoolOf x g + sum_list (stakesOn gid x cs)" for x
    using g'(2-4) none [of x] by (auto simp: winnerPoolOf_cases)
  have "sint (winnerPoolOf x g') = sint (winnerPoolOf x g) + (\<Sum>y\<leftarrow>stakesOn gid x cs. sint y)"
    if "sint (winnerPoolOf x g) + (\<Sum>y\<leftarrow>stakesOn gid x cs. sint y) < 2 ^ 63" for x
    unfolding w using pos that by (rule sint64_add_list)
  with w g'(1) show "\<exists>g'. games s' gid = Some g'
               \<and> (\<forall>x. winnerPoolOf x g' = winnerPoolOf x g + sum_list (stakesOn gid x cs)
                     \<and> (sint (winnerPoolOf x g) + (\<Sum>y\<leftarrow>stakesOn gid x cs. sint y) < 2 ^ 63 \<longrightarrow>
                          sint (winnerPoolOf x g') =
                            sint (winnerPoolOf x g) + (\<Sum>y\<leftarrow>stakesOn gid x cs. sint y)))"
    by blast
qed

theorem placeBets_conservation_witness:
  "\<exists>s'. placeBets [([], 1, 101, ''home'', 100), ([], 1, 102, ''draw'', 7)] (newStore [] [] [])
           = Some s'
        \<and> map_option (\<lambda>w. sint (Balance w)) (wallets s' 1) = Some 893
        \<and> map_option (\<lambda>g. sint (HomePool g)) (games s' 101) = Some 200"
proof -
  let ?cs = "[([], 1, 101, ''home'', 100), ([], 1, 102, ''draw'', 7)]
               :: (string \<times> int64 \<times> int64 \<times> Selection \<times> int64) list"
  have "case placeBets ?cs (newStore [] [] []) of None \<Rightarrow> False | Some s' \<Rightarrow> True"
    by code_simp
  then obtain s' where p: "placeBets ?cs (newStore [] [] []) = Some s'"
    by (auto split: option.splits)
  note t = placeBets_conservation [OF p]
  have by1: "stakesBy 1 ?cs = [100, 7]"
    by (simp add: stakesBy_def)
  have on1: "stakesOn 101 SelHome ?cs = [100]"
    by (simp add: stakesOn_def SelHome_def)
  from t newStore_simps(4) [of "[]" "[]" "[]"] obtain w' where
    w': "wallets s' 1 = Some w'"
      "sint (Balance \<lparr>Wallet.UserID = 1, Balance = 1000\<rparr>) - sint (Balance w')
         = (\<Sum>x\<leftarrow>stakesBy 1 ?cs. sint x)"
    by blast
  from t newStore_simps(5) [of "[]" "[]" "[]"] obtain g' where
    g': "games s' 101 = Some g'"
      "sint (winnerPoolOf SelHome
          \<lparr>Game.ID = 101, Sport = ''Flag Football'', Home = ''Welsh Fam Whirls'',
           Away = ''Lewis Chicks'', StartTime = [], Status = StatusPre,
           Result = None, HomePool = 100, AwayPool = 100, DrawPool = 0,
           HomeOdds = 0, AwayOdds = 0, DrawOdds = 0\<rparr>)
         + (\<Sum>y\<leftarrow>stakesOn 101 SelHome ?cs. sint y) < 2 ^ 63 \<longrightarrow>
       sint (winnerPoolOf SelHome g') =
       sint (winnerPoolOf SelHome
          \<lparr>Game.ID = 101, Sport = ''Flag Football'', Home = ''Welsh Fam Whirls'',
           Away = ''Lewis Chicks'', StartTime = [], Status = StatusPre,
           Result = None, HomePool = 100, AwayPool = 100, DrawPool = 0,
           HomeOdds = 0, AwayOdds = 0, DrawOdds = 0\<rparr>)
         + (\<Sum>y\<leftarrow>stakesOn 101 SelHome ?cs. sint y)"
    by blast
  have "sint (Balance w') = 893"
    using w'(2) unfolding by1 by simp
  moreover have "sint (HomePool g') = 200"
    using g'(2) unfolding on1 by (simp add: winnerPoolOf_def)
  ultimately show ?thesis
    using p w'(1) g'(1) by simp
qed

subsection \<open>C10: every recorded bet has a wallet\<close>

text \<open>
  C10: in every store reached from \<open>newStore\<close> by calls of \<open>placeBet\<close> and \<open>settle\<close>,
  the user of every recorded bet has a wallet (a bet is recorded only after the wallet
  lookup succeeded, and no wallet is ever removed); hence the unguarded lookup in the
  payout loop of \<open>settle\<close> finds a wallet for every winning bet, and \<open>settle\<close> never
  panics on a nil wallet.
\<close>

theorem reachable_bets_have_wallets:
  assumes "reachable s"
  shows "(\<forall>b \<in> snd ` set (bets s). \<exists>w. wallets s (Bet.UserID b) = Some w)
       \<and> fst (settle key gameID result s) \<noteq> Inl nil_pointer_dereference"
  using reachable_covered [OF assms] covered_no_panic [of s key gameID result]
  by (auto simp: covered_def)

theorem reachable_bets_have_wallets_witness:
  "reachable (exec (PlaceBet [] 1 101 ''home'' 100) (newStore [] [] []))
   \<and> map (\<lambda>kb. Bet.UserID (snd kb)) (bets (exec (PlaceBet [] 1 101 ''home'' 100) (newStore [] [] [])))
       = [1]
   \<and> (\<exists>w. wallets (exec (PlaceBet [] 1 101 ''home'' 100) (newStore [] [] [])) 1 = Some w)
   \<and> fst (settle ''letmein'' 101 ''home'' (exec (PlaceBet [] 1 101 ''home'' 100) (newStore [] [] [])))
       \<noteq> Inl nil_pointer_dereference"
proof -
  let ?s1 = "exec (PlaceBet [] 1 101 ''home'' 100) (newStore [] [] [])"
  have r: "reachable ?s1"
    by (rule reachable.step [OF reachable.init])
  have b: "bets ?s1 =
      [(1, \<lparr>Bet.ID = 1, Bet.UserID = 1, GameID = 101, Selection = ''home'', Stake = 100,
             PlacedAt = []\<rparr>)]"
    by (simp add: placeBet_def newStore_def addStake_def SelHome_def Let_def
          word_sle_eq word_sless_alt)
  from reachable_bets_have_wallets [OF r, of "''letmein''" 101 "''home''"] r
  show ?thesis unfolding b by simp
qed

subsection \<open>C2: the payouts of a settlement\<close>

text \<open>
  C2 says that a successful settlement with a non-empty winner pool credits the bettor
  of every bet on the result with exactly \<open>floor((stake / winner_pool) * total)\<close>.
  The source computes the share and the product in \<open>float64\<close> and truncates, and the
  two roundings can land just below an integer that the exact product reaches. On the
  initial store, user 1 stakes 350 on \<open>home\<close> in game 102: the home pool is 500 and
  the total 650. Settling with \<open>home\<close> credits 454 tokens; \<open>(350 / 500) * 650\<close> is 455.
\<close>

theorem settle_payout_below_exact_floor:
  "\<not> isl (fst (settle ''letmein'' 102 ''home''
                  (snd (placeBet [] 1 102 ''home'' 350 (newStore [] [] [])))))
   \<and> wallets (snd (settle ''letmein'' 102 ''home''
                  (snd (placeBet [] 1 102 ''home'' 350 (newStore [] [] []))))) 1
       = Some \<lparr>Wallet.UserID = 1, Balance = 650 + 454\<rparr>
   \<and> wallets (snd (placeBet [] 1 102 ''home'' 350 (newStore [] [] []))) 1
       = Some \<lparr>Wallet.UserID = 1, Balance = 650\<rparr>
   \<and> games (snd (placeBet [] 1 102 ''home'' 350 (newStore [] [] []))) 102
       = Some \<lparr>Game.ID = 102, Sport = ''Soccer'', Home = ''Alumni'',
               Away = ''Dillon'', StartTime = [], Status = StatusPre,
               Result = None, HomePool = 500, AwayPool = 120, DrawPool = 30,
               HomeOdds = 0, AwayOdds = 0, DrawOdds = 0\<rparr>
   \<and> bets (snd (placeBet [] 1 102 ''home'' 350 (newStore [] [] [])))
       = [(1, \<lparr>Bet.ID = 1, Bet.UserID = 1, GameID = 102, Selection = ''home'',
               Stake = 350, PlacedAt = []\<rparr>)]
   \<and> exactPayout 350 500 (500 + 120 + 30) = 455
   \<and> (454 :: int64) \<noteq> word_of_int (exactPayout 350 500 (500 + 120 + 30))"
proof -
  let ?s1 = "snd (placeBet [] 1 102 ''home'' 350 (newStore [] [] []))"
  have f:
    "wallets ?s1 1 = Some \<lparr>Wallet.UserID = 1, Balance = 650\<rparr>"
    "games ?s1 102 =
       Some \<lparr>Game.ID = 102, Sport = ''Soccer'', Home = ''Alumni'',
             Away = ''Dillon'', StartTime = [], Status = StatusPre,
             Result = None, HomePool = 500, AwayPool = 120, DrawPool = 30,
             HomeOdds = 0, AwayOdds = 0, DrawOdds = 0\<rparr>"
    "bets ?s1 = [(1, \<lparr>Bet.ID = 1, Bet.UserID = 1, GameID = 102, Selection = ''home'',
                      Stake = 350, PlacedAt = []\<rparr>)]"
    "adminKey ?s1 = ''letmein''"
    using first_home_bet [OF newStore_102, of 350]
    by (simp_all add: word_sless_alt word_sle_eq)
  have p: "payout 350 500 650 = 454"
    by code_simp
  have x: "exactPayout 350 500 650 = 455"
    by code_simp
  from settle_succeeds [of "''letmein''" ?s1 102 _ "''home''"] f
  obtain g' s' where st: "settle ''letmein'' 102 ''home'' ?s1 = (Inr g', s')"
    by auto
  have "wallets s' 1 = Some \<lparr>Wallet.UserID = 1, Balance = 1104\<rparr>"
    using settle_credit [OF st f(2), of 1] f p
    by (simp add: winnerPoolOf_def SelHome_def credited_def)
  with st f p x show ?thesis by simp
qed

text \<open>
  C2 as the code has it: when \<open>settle\<close> succeeds and the winner pool is not 0, every
  wallet is credited with the sum of \<open>payout\<close> over the recorded bets of its user on
  that game whose selection is the result, and with nothing else; \<open>payout\<close> is the
  \<open>float64\<close> product of the \<open>float64\<close> share and the total, truncated to \<open>int64\<close>.
  In the scenario of the specification (a sole home bet of 100, home pool 200, total
  300) the bettor receives exactly 150.
\<close>

theorem settle_payouts:
  assumes "settle key gameID result s = (Inr g', s')" and "games s gameID = Some g"
    and "winnerPoolOf result g \<noteq> 0"
  shows "wallets s' u = map_option
           (\<lambda>w. w\<lparr>Balance := Balance w +
                credited u gameID result (winnerPoolOf result g)
                  (HomePool g + AwayPool g + DrawPool g) (map snd (bets s))\<rparr>)
           (wallets s u)"
  using assms by (rule settle_credit)

theorem settle_payouts_witness:
  "(\<exists>g' s'. settle ''letmein'' 101 ''home''
               (snd (placeBet [] 1 101 ''home'' 100 (newStore [] [] []))) = (Inr g', s')
      \<and> map_option Balance (wallets s' 1) = Some 1050)
   \<and> map_option Balance (wallets (snd (placeBet [] 1 101 ''home'' 100 (newStore [] [] []))) 1)
       = Some 900
   \<and> map_option (\<lambda>g. (HomePool g, HomePool g + AwayPool g + DrawPool g))
        (games (snd (placeBet [] 1 101 ''home'' 100 (newStore [] [] []))) 101) = Some (200, 300)
   \<and> payout 100 200 300 = 150"
proof -
  let ?s1 = "snd (placeBet [] 1 101 ''home'' 100 (newStore [] [] []))"
  have f:
    "wallets ?s1 1 = Some \<lparr>Wallet.UserID = 1, Balance = 900\<rparr>"
    "games ?s1 101 =
       Some \<lparr>Game.ID = 101, Sport = ''Flag Football'', Home = ''Welsh Fam Whirls'',
             Away = ''Lewis Chicks'', StartTime = [], Status = StatusPre,
             Result = None, HomePool = 200, AwayPool = 100, DrawPool = 0,
             HomeOdds = 0, AwayOdds = 0, DrawOdds = 0\<rparr>"
    "bets ?s1 = [(1, \<lparr>Bet.ID = 1, Bet.UserID = 1, GameID = 101, Selection = ''home'',
                      Stake = 100, PlacedAt = []\<rparr>)]"
    "adminKey ?s1 = ''letmein''"
    using first_home_bet [OF newStore_simps(5), of 100]
    by (simp_all add: word_sless_alt word_sle_eq)
  have p: "payout 100 200 300 = 150"
    by code_simp
  from settle_succeeds [of "''letmein''" ?s1 101 _ "''home''"] f
  obtain g' s' where st: "settle ''letmein'' 101 ''home'' ?s1 = (Inr g', s')"
    by auto
  have "wallets s' 1 = Some \<lparr>Wallet.UserID = 1, Balance = 1050\<rparr>"
    using settle_payouts [OF st f(2), of 1] f p
    by (simp add: winnerPoolOf_def SelHome_def credited_def)
  with st f p show ?thesis by simp
qed

subsection \<open>C4: the odds\<close>




end
